theory Spec2Isabelle
  imports Complex_Main
begin

section \<open>Gesture Rock Paper Scissors: the resolver, the classifier and the debouncer\<close>

text \<open>
  A shallow embedding of \<^verbatim>\<open>main.py\<close>. Python strings are \<open>string\<close>, Python
  integers are \<open>int\<close>, the two float constants \<open>0.0\<close> and \<open>1.0\<close> of the confidence
  are the reals 0 and 1 (no arithmetic is done on them). Mutation of \<^verbatim>\<open>self\<close> is
  explicit state passing.
\<close>

subsection \<open>Library functions of Python used by the source\<close>

text \<open>
  \<^verbatim>\<open>str.title()\<close> on strings whose cased characters are the ASCII letters: a letter
  that follows an uncased character is upper-cased, a letter that follows a cased one is
  lower-cased, every other character is kept and ends the word.
\<close>

definition is_lower :: "char \<Rightarrow> bool" where
  "is_lower c = (97 \<le> (of_char c :: nat) \<and> (of_char c :: nat) \<le> 122)"

definition is_upper :: "char \<Rightarrow> bool" where
  "is_upper c = (65 \<le> (of_char c :: nat) \<and> (of_char c :: nat) \<le> 90)"

definition to_upper :: "char \<Rightarrow> char" where
  "to_upper c = (if is_lower c then char_of ((of_char c :: nat) - 32) else c)"

definition to_lower :: "char \<Rightarrow> char" where
  "to_lower c = (if is_upper c then char_of ((of_char c :: nat) + 32) else c)"

fun title_from :: "bool \<Rightarrow> string \<Rightarrow> string" where
  "title_from previous_is_cased [] = []"
| "title_from previous_is_cased (c # cs) =
     (if is_lower c then
        (if previous_is_cased then c else to_upper c) # title_from True cs
      else if is_upper c then
        (if previous_is_cased then to_lower c else c) # title_from True cs
      else c # title_from False cs)"

definition title :: "string \<Rightarrow> string" where
  "title s = title_from False s"

text \<open>\<^verbatim>\<open>str(n)\<close> for an integer: its decimal digits, with a minus sign when negative.\<close>

fun digits :: "nat \<Rightarrow> string" where
  "digits n =
     (if n < 10 then [char_of (48 + n)]
      else digits (n div 10) @ [char_of (48 + n mod 10)])"

declare digits.simps [simp del]

definition str :: "int \<Rightarrow> string" where
  "str i = (if i < 0 then CHR ''-'' # digits (nat (- i)) else digits (nat i))"

text \<open>\<^verbatim>\<open>any\<close> and \<^verbatim>\<open>all\<close> over a tuple of booleans.\<close>

fun any :: "bool list \<Rightarrow> bool" where
  "any [] = False"
| "any (b # bs) = (if b then True else any bs)"

fun all :: "bool list \<Rightarrow> bool" where
  "all [] = True"
| "all (b # bs) = (if b then all bs else False)"

subsection \<open>GestureResult and GestureRecognizer\<close>

record GestureResult =
  name :: string
  confidence :: real

text \<open>
  The hand landmarks of MediaPipe: 21 points per detected hand, of which the source reads
  the vertical coordinate only. \<open>lms i\<close> is \<^verbatim>\<open>landmarks.landmark[i].y\<close>.
\<close>

type_synonym hand_landmarks = "nat \<Rightarrow> real"

definition FINGER_LANDMARKS :: "(string \<times> nat \<times> nat) list" where
  "FINGER_LANDMARKS =
     [(''thumb'', (4, 3)),
      (''index'', (8, 6)),
      (''middle'', (12, 10)),
      (''ring'', (16, 14)),
      (''pinky'', (20, 18))]"

definition is_extended :: "hand_landmarks \<Rightarrow> nat \<Rightarrow> nat \<Rightarrow> bool" where
  "is_extended landmarks tip_idx pip_idx = (landmarks tip_idx < landmarks pip_idx)"

definition fingers_extended :: "hand_landmarks \<Rightarrow> (string \<times> bool) list" where
  "fingers_extended landmarks =
     map (\<lambda>(finger, idx_pair). (finger, is_extended landmarks (fst idx_pair) (snd idx_pair)))
       FINGER_LANDMARKS"

text \<open>Lines 84 to 92 of the source: the rule over the five booleans, in the source's order.\<close>

definition classify_fingers :: "bool \<Rightarrow> bool \<Rightarrow> bool \<Rightarrow> bool \<Rightarrow> bool \<Rightarrow> string" where
  "classify_fingers thumb index middle ring pinky =
     (if \<not> any [thumb, index, middle, ring, pinky] then ''rock''
      else if all [thumb, index, middle, ring, pinky] then ''paper''
      else if index \<and> \<not> any [middle, ring, pinky] then ''pencil''
      else if index \<and> middle \<and> \<not> any [ring, pinky] then ''scissors''
      else ''unknown'')"

text \<open>
  \<^verbatim>\<open>_classify\<close>: the dictionary of the five fingers is built from
  \<open>FINGER_LANDMARKS\<close>, so each of the five keys read from it is present.
\<close>

definition classify :: "hand_landmarks \<Rightarrow> string" where
  "classify landmarks =
     (let fe = map_of (fingers_extended landmarks) in
      classify_fingers (the (fe ''thumb'')) (the (fe ''index'')) (the (fe ''middle''))
        (the (fe ''ring'')) (the (fe ''pinky'')))"

text \<open>
  \<^verbatim>\<open>process\<close>: a frame is given by what the hand tracker finds in it,
  \<^verbatim>\<open>results.multi_hand_landmarks\<close>, a list of hands that is empty when no hand is
  detected.
\<close>

definition process :: "hand_landmarks list \<Rightarrow> GestureResult \<times> hand_landmarks option" where
  "process multi_hand_landmarks =
     (case multi_hand_landmarks of
        [] \<Rightarrow> (\<lparr>name = ''unknown'', confidence = 0\<rparr>, None)
      | hand_landmarks # _ \<Rightarrow>
          (let gesture_name = classify hand_landmarks;
               conf = (if gesture_name \<noteq> ''unknown'' then 1 else 0)
           in (\<lparr>name = gesture_name, confidence = conf\<rparr>, Some hand_landmarks)))"

subsection \<open>GestureRPSGame\<close>

definition MOVES :: "string list" where
  "MOVES = [''rock'', ''paper'', ''scissors'', ''pencil'']"

definition WIN_RULES :: "string \<rightharpoonup> string set" where
  "WIN_RULES =
     map_of
       [(''rock'', {''scissors'', ''pencil''}),
        (''paper'', {''rock''}),
        (''scissors'', {''paper'', ''pencil''}),
        (''pencil'', {''paper''})]"

text \<open>\<^verbatim>\<open>self.score\<close>, a dictionary with the three fixed keys set by \<^verbatim>\<open>__init__\<close>.\<close>

record score =
  player :: int
  computer :: int
  ties :: int

definition new_score :: score where
  "new_score = \<lparr>player = 0, computer = 0, ties = 0\<rparr>"

text \<open>
  \<^verbatim>\<open>random.choice(self.MOVES)\<close>: the argument is the index the generator draws,
  which is below the length of \<open>MOVES\<close>.
\<close>

definition get_computer_move :: "nat \<Rightarrow> string" where
  "get_computer_move k = MOVES ! (k mod length MOVES)"

text \<open>\<^verbatim>\<open>WIN_RULES.get(player_move, set())\<close>.\<close>

definition win_rules_get :: "string \<Rightarrow> string set" where
  "win_rules_get player_move =
     (case WIN_RULES player_move of None \<Rightarrow> {} | Some beaten \<Rightarrow> beaten)"

definition resolve_round :: "score \<Rightarrow> string \<Rightarrow> string \<Rightarrow> string \<times> score" where
  "resolve_round sc player_move computer_move =
     (if player_move = computer_move then
        (''It's a tie!'', sc\<lparr>ties := ties sc + 1\<rparr>)
      else if computer_move \<in> win_rules_get player_move then
        (''You win! '' @ title player_move @ '' beats '' @ computer_move @ ''.'',
         sc\<lparr>player := player sc + 1\<rparr>)
      else
        (''I win! '' @ title computer_move @ '' beats '' @ player_move @ ''.'',
         sc\<lparr>computer := computer sc + 1\<rparr>))"

subsection \<open>The toolkit's timers\<close>

text \<open>
  \<^verbatim>\<open>window.after(ms, f)\<close> registers a callback that the event loop runs once, no
  earlier than \<open>ms\<close> milliseconds later, and returns a fresh identifier;
  \<^verbatim>\<open>window.after_cancel(id)\<close> removes the callback with that identifier, if it is
  still pending. The table of pending callbacks and the counter the identifiers are taken
  from are part of the state. The clock is read once per callback run and passed as
  \<open>now\<close>.
\<close>

datatype callback = UpdateVideo | ReleaseLockout

type_synonym timer = "nat \<times> nat \<times> callback"

subsection \<open>GestureRPSApp\<close>

record app =
  game :: score
  status_var :: string
  player_score_var :: string
  computer_score_var :: string
  tie_score_var :: string
  last_gesture :: string
  gesture_frames :: int
  lockout :: bool
  lockout_after_id :: "nat option"
  after_tbl :: "timer list"
  after_next :: nat

definition window_after :: "app \<Rightarrow> nat \<Rightarrow> nat \<Rightarrow> callback \<Rightarrow> nat \<times> app" where
  "window_after s now ms f =
     (after_next s,
      s\<lparr>after_tbl := after_tbl s @ [(after_next s, now + ms, f)],
        after_next := after_next s + 1\<rparr>)"

definition window_after_cancel :: "app \<Rightarrow> nat \<Rightarrow> app" where
  "window_after_cancel s i = s\<lparr>after_tbl := filter (\<lambda>e. fst e \<noteq> i) (after_tbl s)\<rparr>"

text \<open>
  \<^verbatim>\<open>GestureRPSApp._resolve_round\<close>; the second argument of the model is the index
  drawn by \<^verbatim>\<open>get_computer_move\<close>.
\<close>

definition app_resolve_round :: "app \<Rightarrow> string \<Rightarrow> nat \<Rightarrow> app" where
  "app_resolve_round s player_move k =
     (let computer_move = get_computer_move k;
          (message, sc) = resolve_round (game s) player_move computer_move
      in s\<lparr>game := sc,
           player_score_var := str (player sc),
           computer_score_var := str (computer sc),
           tie_score_var := str (ties sc),
           status_var :=
             ''You played '' @ player_move @ ''. I played '' @ computer_move @ ''.'' @
             [CHR 0x0A] @ message\<rparr>)"

text \<open>
  \<^verbatim>\<open>_handle_gesture\<close>. The status text of the first branch ends in the character
  U+2026, written here as the three bytes of its UTF-8 encoding.
\<close>

definition handle_gesture :: "app \<Rightarrow> nat \<Rightarrow> GestureResult \<Rightarrow> nat \<Rightarrow> app" where
  "handle_gesture s now gesture_result k =
     (let gesture = name gesture_result in
      if gesture = ''unknown'' then
        s\<lparr>last_gesture := ''unknown'',
          gesture_frames := 0,
          status_var := ''Waiting for a gesture'' @ [CHR 0xE2, CHR 0x80, CHR 0xA6]\<rparr>
      else
        let s1 = (if gesture = last_gesture s
                  then s\<lparr>gesture_frames := gesture_frames s + 1\<rparr>
                  else s\<lparr>gesture_frames := 1, last_gesture := gesture\<rparr>)
        in if gesture_frames s1 \<ge> 10 then
             let s2 = s1\<lparr>lockout := True\<rparr>;
                 s3 = app_resolve_round s2 gesture k;
                 s4 = s3\<lparr>gesture_frames := 0, last_gesture := ''unknown''\<rparr>;
                 (i, s5) = window_after s4 now 1800 ReleaseLockout
             in s5\<lparr>lockout_after_id := Some i\<rparr>
           else s1)"

definition release_lockout :: "app \<Rightarrow> app" where
  "release_lockout s = s\<lparr>lockout := False, status_var := ''Show a gesture to play!''\<rparr>"

definition reset_game :: "app \<Rightarrow> app" where
  "reset_game s =
     (let s1 = (case lockout_after_id s of
                  Some i \<Rightarrow> (window_after_cancel s i)\<lparr>lockout_after_id := None\<rparr>
                | None \<Rightarrow> s)
      in s1\<lparr>lockout := False,
            last_gesture := ''unknown'',
            gesture_frames := 0,
            game := new_score,
            player_score_var := ''0'',
            computer_score_var := ''0'',
            tie_score_var := ''0'',
            status_var := ''Scores cleared. Show a gesture to play!''\<rparr>)"

text \<open>
  \<^verbatim>\<open>_update_video\<close>. The camera read \<^verbatim>\<open>ret, frame = self.cap.read()\<close> is
  \<open>None\<close> when \<open>ret\<close> is false and \<open>Some frame\<close> otherwise; drawing and display do
  not touch the state modelled here.
\<close>

definition update_video :: "app \<Rightarrow> nat \<Rightarrow> hand_landmarks list option \<Rightarrow> nat \<Rightarrow> app" where
  "update_video s now cam k =
     (case cam of
        None \<Rightarrow>
          snd (window_after (s\<lparr>status_var := ''Camera feed unavailable.''\<rparr>) now 500 UpdateVideo)
      | Some frame \<Rightarrow>
          (let (gesture_result, hand_landmarks) = process frame;
               s1 = (if \<not> lockout s then handle_gesture s now gesture_result k else s)
           in snd (window_after s1 now 30 UpdateVideo)))"

text \<open>
  \<^verbatim>\<open>__init__\<close>: the fields as they are set before the first call of
  \<^verbatim>\<open>_update_video\<close>, and the constructor as a whole, which exits (\<open>None\<close>) when the
  camera cannot be opened.
\<close>

definition init_fields :: app where
  "init_fields =
     \<lparr>game = new_score,
      status_var = ''Show a gesture to start!'',
      player_score_var = ''0'',
      computer_score_var = ''0'',
      tie_score_var = ''0'',
      last_gesture = ''unknown'',
      gesture_frames = 0,
      lockout = False,
      lockout_after_id = None,
      after_tbl = [],
      after_next = 0\<rparr>"

definition app_init :: "bool \<Rightarrow> nat \<Rightarrow> hand_landmarks list option \<Rightarrow> nat \<Rightarrow> app option" where
  "app_init cap_is_opened now cam k =
     (if \<not> cap_is_opened then None else Some (update_video init_fields now cam k))"

subsection \<open>The event loop\<close>

text \<open>
  \<^verbatim>\<open>mainloop\<close> runs one callback at a time: a pending timer whose time has come (it
  is removed from the table, then its callback runs), or a click on the reset button.
  A timer event carries the clock, and what the camera and the random generator return
  should the callback ask them.
\<close>

datatype event =
  Fire nat nat "hand_landmarks list option" nat
| ResetButton

definition fire_timer :: "app \<Rightarrow> nat \<Rightarrow> nat \<Rightarrow> hand_landmarks list option \<Rightarrow> nat \<Rightarrow> app" where
  "fire_timer s i now cam k =
     (case find (\<lambda>e. fst e = i) (after_tbl s) of
        None \<Rightarrow> s
      | Some (_, due, f) \<Rightarrow>
          if now < due then s
          else
            let s1 = s\<lparr>after_tbl := filter (\<lambda>e. fst e \<noteq> i) (after_tbl s)\<rparr>
            in (case f of
                  UpdateVideo \<Rightarrow> update_video s1 now cam k
                | ReleaseLockout \<Rightarrow> release_lockout s1))"

fun step :: "app \<Rightarrow> event \<Rightarrow> app" where
  "step s (Fire i now cam k) = fire_timer s i now cam k"
| "step s ResetButton = reset_game s"

definition run :: "app \<Rightarrow> event list \<Rightarrow> app" where
  "run s evs = foldl step s evs"

inductive reachable :: "app \<Rightarrow> bool" where
  reachable_init: "reachable (update_video init_fields now cam k)"
| reachable_step: "reachable s \<Longrightarrow> reachable (step s ev)"

subsection \<open>Notions of the specification\<close>

text \<open>
  The outcome of a round is read off the message \<open>resolve_round\<close> returns: the three
  messages of the source differ within their first two characters.
\<close>

datatype outcome = Tie | PlayerWin | ComputerWin

definition outcome_of :: "string \<Rightarrow> outcome option" where
  "outcome_of msg =
     (if msg = ''It's a tie!'' then Some Tie
      else if take 9 msg = ''You win! '' then Some PlayerWin
      else if take 7 msg = ''I win! '' then Some ComputerWin
      else None)"

text \<open>The win relation in the words of the specification, and the outcome it gives.\<close>

definition spec_beats :: "string \<Rightarrow> string \<Rightarrow> bool" where
  "spec_beats a b =
     ((a = ''rock'' \<and> (b = ''scissors'' \<or> b = ''pencil'')) \<or>
      (a = ''paper'' \<and> b = ''rock'') \<or>
      (a = ''scissors'' \<and> (b = ''paper'' \<or> b = ''pencil'')) \<or>
      (a = ''pencil'' \<and> b = ''paper''))"

definition spec_outcome :: "string \<Rightarrow> string \<Rightarrow> outcome" where
  "spec_outcome a b =
     (if spec_beats a b then PlayerWin
      else if spec_beats b a then ComputerWin
      else Tie)"

text \<open>The counter an outcome increments.\<close>

definition bump :: "outcome \<Rightarrow> score \<Rightarrow> score" where
  "bump out sc =
     (case out of
        Tie \<Rightarrow> sc\<lparr>ties := ties sc + 1\<rparr>
      | PlayerWin \<Rightarrow> sc\<lparr>player := player sc + 1\<rparr>
      | ComputerWin \<Rightarrow> sc\<lparr>computer := computer sc + 1\<rparr>)"

text \<open>The classifier in the words of the specification.\<close>

definition spec_classify :: "bool \<Rightarrow> bool \<Rightarrow> bool \<Rightarrow> bool \<Rightarrow> bool \<Rightarrow> string" where
  "spec_classify thumb index middle ring pinky =
     (if \<not> thumb \<and> \<not> index \<and> \<not> middle \<and> \<not> ring \<and> \<not> pinky then ''rock''
      else if thumb \<and> index \<and> middle \<and> ring \<and> pinky then ''paper''
      else if index \<and> \<not> thumb \<and> \<not> middle \<and> \<not> ring \<and> \<not> pinky then ''pencil''
      else if index \<and> middle \<and> \<not> ring \<and> \<not> pinky then ''scissors''
      else ''unknown'')"

text \<open>
  The number of rounds resolved so far, a sequence of ticks of the video loop (clock,
  camera read, random draw), and the observation a tick hands to the debouncer.
\<close>

definition rounds :: "app \<Rightarrow> int" where
  "rounds s = player (game s) + computer (game s) + ties (game s)"

type_synonym tick = "nat \<times> hand_landmarks list option \<times> nat"

definition ticks :: "app \<Rightarrow> tick list \<Rightarrow> app" where
  "ticks s ts = foldl (\<lambda>s' (now, cam, k). update_video s' now cam k) s ts"

definition observed :: "tick \<Rightarrow> string option" where
  "observed t = (case fst (snd t) of None \<Rightarrow> None | Some frame \<Rightarrow> Some (name (fst (process frame))))"

text \<open>The identifiers of the pending cool-down releases.\<close>

definition release_ids :: "app \<Rightarrow> nat list" where
  "release_ids s = map fst (filter (\<lambda>e. snd (snd e) = ReleaseLockout) (after_tbl s))"

text \<open>Hands for concrete runs: a fist, an open palm, thumb and index finger.\<close>

definition rock_hand :: hand_landmarks where
  "rock_hand = (\<lambda>i. 0)"

definition paper_hand :: hand_landmarks where
  "paper_hand = (\<lambda>i. if i \<in> {4, 8, 12, 16, 20} then 0 else 1)"

definition thumb_index_hand :: hand_landmarks where
  "thumb_index_hand = (\<lambda>i. if i \<in> {4, 8} then 0 else 1)"

text \<open>
  The invariant of the reachable states: the identifiers in the timer table are distinct
  and below the counter; while the lockout flag is set, exactly one release is pending, its
  identifier is the one stored in \<open>lockout_after_id\<close>, and the candidate and the
  count are cleared; while the flag is not set, no release is pending.
\<close>

definition app_inv :: "app \<Rightarrow> bool" where
  "app_inv s \<longleftrightarrow>
     distinct (map fst (after_tbl s)) \<and>
     list_all (\<lambda>e. fst e < after_next s) (after_tbl s) \<and>
     (if lockout s
      then release_ids s = (case lockout_after_id s of Some i \<Rightarrow> [i] | None \<Rightarrow> []) \<and>
           lockout_after_id s \<noteq> None \<and>
           last_gesture s = ''unknown'' \<and> gesture_frames s = 0
      else release_ids s = [])"

text \<open>An identifier that was handed out and is no longer in the timer table.\<close>

definition cancelled :: "nat \<Rightarrow> app \<Rightarrow> bool" where
  "cancelled i s \<longleftrightarrow> i < after_next s \<and> i \<notin> set (map fst (after_tbl s))"

text \<open>
  A concrete run: the constructor's first frame and nine more frames, 30 ms apart, all
  showing a fist; the computer draws index 0 (rock). The tenth frame commits the round
  at clock 270.
\<close>

definition locked_example :: app where
  "locked_example =
     run (update_video init_fields 0 (Some [rock_hand]) 0)
       (map (\<lambda>i. Fire i (30 * (i + 1)) (Some [rock_hand]) 0) [0..<9])"

section \<open>The resolver\<close>

lemma win_rules_get_iff: "b \<in> win_rules_get a \<longleftrightarrow> spec_beats a b"
  by (auto simp add: win_rules_get_def WIN_RULES_def spec_beats_def split: option.splits if_splits)

lemma win_rules_get_unlisted: "p \<notin> set MOVES \<Longrightarrow> win_rules_get p = {}"
  by (simp add: win_rules_get_def WIN_RULES_def MOVES_def)

lemma resolve_round_outcome:
  "outcome_of (fst (resolve_round sc a b)) =
     Some (if a = b then Tie else if spec_beats a b then PlayerWin else ComputerWin)"
  by (simp add: resolve_round_def win_rules_get_iff outcome_of_def)

lemma resolve_round_score:
  "snd (resolve_round sc a b) =
     (if a = b then sc\<lparr>ties := ties sc + 1\<rparr>
      else if spec_beats a b then sc\<lparr>player := player sc + 1\<rparr>
      else sc\<lparr>computer := computer sc + 1\<rparr>)"
  by (simp add: resolve_round_def win_rules_get_iff)

text \<open>
  Claim C2. For every pair of moves of the four-move set, the outcome of
  \<open>resolve_round\<close> is the one the specification's relation gives: a player win when
  the player's move beats the computer's, a computer win when the computer's move beats
  the player's, a tie otherwise (the pairs neither way beats are the equal ones).
\<close>

theorem resolve_round_win_relation:
  assumes "a \<in> set MOVES" and "b \<in> set MOVES"
  shows "outcome_of (fst (resolve_round sc a b)) = Some (spec_outcome a b)"
  using assms unfolding resolve_round_outcome spec_outcome_def
  by (auto simp add: MOVES_def spec_beats_def)

theorem resolve_round_win_relation_witness:
  "''pencil'' \<in> set MOVES \<and> ''rock'' \<in> set MOVES \<and>
   spec_outcome ''pencil'' ''rock'' = ComputerWin \<and>
   outcome_of (fst (resolve_round new_score ''pencil'' ''rock'')) = Some ComputerWin"
proof -
  have a: "''pencil'' \<in> set MOVES" and b: "''rock'' \<in> set MOVES"
    by (simp_all add: MOVES_def)
  have c: "spec_outcome ''pencil'' ''rock'' = ComputerWin"
    by (simp add: spec_outcome_def spec_beats_def)
  show ?thesis
    using resolve_round_win_relation [OF a b, of new_score] a b c by simp
qed

text \<open>
  Claim C5. For every pair of arguments, one call of \<open>resolve_round\<close> produces exactly
  one of the three outcomes and adds 1 to the counter of that outcome and to no other:
  the three differences are (1,0,0), (0,1,0) or (0,0,1), and their sum is 1.
\<close>

theorem resolve_round_one_increment:
  "\<exists>out. outcome_of (fst (resolve_round sc a b)) = Some out \<and>
     snd (resolve_round sc a b) = bump out sc \<and>
     (player (bump out sc) - player sc, computer (bump out sc) - computer sc,
        ties (bump out sc) - ties sc) \<in> {(1, 0, 0), (0, 1, 0), (0, 0, 1)} \<and>
     (player (bump out sc) - player sc) + (computer (bump out sc) - computer sc) +
        (ties (bump out sc) - ties sc) = 1"
  unfolding resolve_round_outcome resolve_round_score
  by (simp add: bump_def)

theorem resolve_round_one_increment_witness:
  "\<exists>out. outcome_of (fst (resolve_round new_score ''rock'' ''pencil'')) = Some out \<and>
     snd (resolve_round new_score ''rock'' ''pencil'') = bump out new_score"
  using resolve_round_one_increment [of new_score "''rock''" "''pencil''"] by blast

text \<open>
  Claim C6. \<open>resolve_round m m\<close> is a tie for every \<open>m\<close>, of the move set or not: the
  ties counter grows by 1, the player and computer counters keep their values.
\<close>

theorem resolve_round_same_move:
  "resolve_round sc m m = (''It's a tie!'', sc\<lparr>ties := ties sc + 1\<rparr>) \<and>
   outcome_of (fst (resolve_round sc m m)) = Some Tie \<and>
   ties (snd (resolve_round sc m m)) = ties sc + 1 \<and>
   player (snd (resolve_round sc m m)) = player sc \<and>
   computer (snd (resolve_round sc m m)) = computer sc"
  by (simp add: resolve_round_def outcome_of_def)

theorem resolve_round_same_move_witness:
  "resolve_round new_score ''paper'' ''paper'' =
     (''It's a tie!'', \<lparr>player = 0, computer = 0, ties = 1\<rparr>)"
  using resolve_round_same_move [of new_score "''paper''"] by (simp add: new_score_def)

text \<open>
  Claim C10. A player move outside the four-move set has no entry in \<open>WIN_RULES\<close>;
  the lookup then yields the empty set, so against any different computer move the
  call returns the computer-win message and adds 1 to the computer counter only.
\<close>

theorem resolve_round_unlisted_move:
  assumes "p \<notin> set MOVES" and "c \<noteq> p"
  shows "resolve_round sc p c =
           (''I win! '' @ title c @ '' beats '' @ p @ ''.'', sc\<lparr>computer := computer sc + 1\<rparr>) \<and>
         outcome_of (fst (resolve_round sc p c)) = Some ComputerWin"
  using assms by (simp add: resolve_round_def win_rules_get_unlisted outcome_of_def)

theorem resolve_round_unlisted_move_witness:
  "''lizard'' \<notin> set MOVES \<and> ''rock'' \<noteq> ''lizard'' \<and>
   resolve_round new_score ''lizard'' ''rock'' =
     (''I win! Rock beats lizard.'', \<lparr>player = 0, computer = 1, ties = 0\<rparr>)"
proof -
  have a: "''lizard'' \<notin> set MOVES" by (simp add: MOVES_def)
  have b: "''rock'' \<noteq> ''lizard''" by simp
  have t: "title ''rock'' = ''Rock''" by code_simp
  show ?thesis
    using resolve_round_unlisted_move [OF a b, of new_score] a b t
    by (simp add: new_score_def)
qed

section \<open>The classifier\<close>

lemma classify_landmarks:
  "classify lms =
     classify_fingers (lms 4 < lms 3) (lms 8 < lms 6) (lms 12 < lms 10)
       (lms 16 < lms 14) (lms 20 < lms 18)"
  by (simp add: classify_def fingers_extended_def FINGER_LANDMARKS_def is_extended_def)

text \<open>
  Claim C8, as stated, fails: with thumb and index extended and the other three fingers
  folded the source returns \<open>pencil\<close>, where the claim's rule (only the index for
  pencil, unknown for any other combination) gives \<open>unknown\<close>.
\<close>

theorem classify_thumb_index_counterexample:
  "classify_fingers True True False False False = ''pencil'' \<and>
   spec_classify True True False False False = ''unknown'' \<and>
   name (fst (process [thumb_index_hand])) = ''pencil''"
  by (simp add: classify_fingers_def spec_classify_def process_def classify_landmarks
      thumb_index_hand_def)

text \<open>
  Claim C8, amended. The classifier returns rock when no finger is extended, paper when
  all five are, pencil when the index is extended and middle, ring and pinky are not
  (the thumb either way), scissors when index and middle are extended and ring and pinky
  are not, and unknown for every other combination.
\<close>

theorem classify_fingers_rule:
  "classify_fingers thumb index middle ring pinky =
     (if \<not> thumb \<and> \<not> index \<and> \<not> middle \<and> \<not> ring \<and> \<not> pinky then ''rock''
      else if thumb \<and> index \<and> middle \<and> ring \<and> pinky then ''paper''
      else if index \<and> \<not> middle \<and> \<not> ring \<and> \<not> pinky then ''pencil''
      else if index \<and> middle \<and> \<not> ring \<and> \<not> pinky then ''scissors''
      else ''unknown'')"
  by (simp add: classify_fingers_def)

theorem classify_fingers_rule_witness:
  "classify_fingers False True True False False = ''scissors'' \<and>
   classify_fingers True False False False False = ''unknown''"
  using classify_fingers_rule [of False True True False False]
    classify_fingers_rule [of True False False False False]
  by simp

text \<open>
  Claim C9. For every frame, the confidence returned by \<open>process\<close> is 0 or 1, and it is
  1 exactly when the gesture name is not \<open>unknown\<close>.
\<close>

theorem process_confidence:
  "(confidence (fst (process frame)) = 0 \<or> confidence (fst (process frame)) = 1) \<and>
   (confidence (fst (process frame)) = 1 \<longleftrightarrow> name (fst (process frame)) \<noteq> ''unknown'')"
  by (simp add: process_def Let_def split: list.splits)

theorem process_confidence_witness:
  "confidence (fst (process [rock_hand])) = 1 \<and> name (fst (process [rock_hand])) = ''rock'' \<and>
   confidence (fst (process [])) = 0"
proof -
  have n: "name (fst (process [rock_hand])) = ''rock''"
    by (simp add: process_def classify_landmarks rock_hand_def classify_fingers_def)
  have e: "confidence (fst (process [])) = 0"
    by (simp add: process_def)
  show ?thesis
    using process_confidence [of "[rock_hand]"] n e by simp
qed

section \<open>The debouncer\<close>

lemma update_video_Some:
  "update_video s now (Some frame) k =
     snd (window_after (if \<not> lockout s then handle_gesture s now (fst (process frame)) k else s)
            now 30 UpdateVideo)"
  by (simp add: update_video_def split: prod.splits)

lemma update_video_None:
  "update_video s now None k =
     snd (window_after (s\<lparr>status_var := ''Camera feed unavailable.''\<rparr>) now 500 UpdateVideo)"
  by (simp add: update_video_def)

lemma window_after_fields:
  "lockout (snd (window_after s now ms f)) = lockout s"
  "last_gesture (snd (window_after s now ms f)) = last_gesture s"
  "gesture_frames (snd (window_after s now ms f)) = gesture_frames s"
  "game (snd (window_after s now ms f)) = game s"
  "lockout_after_id (snd (window_after s now ms f)) = lockout_after_id s"
  "after_tbl (snd (window_after s now ms f)) = after_tbl s @ [(after_next s, now + ms, f)]"
  "after_next (snd (window_after s now ms f)) = after_next s + 1"
  by (simp_all add: window_after_def)

lemma handle_gesture_unknown:
  assumes "name g = ''unknown''"
  shows "lockout (handle_gesture s now g k) = lockout s"
    and "last_gesture (handle_gesture s now g k) = ''unknown''"
    and "gesture_frames (handle_gesture s now g k) = 0"
    and "game (handle_gesture s now g k) = game s"
    and "lockout_after_id (handle_gesture s now g k) = lockout_after_id s"
    and "after_tbl (handle_gesture s now g k) = after_tbl s"
    and "after_next (handle_gesture s now g k) = after_next s"
  using assms by (simp_all add: handle_gesture_def)

lemma handle_gesture_count:
  assumes "name g \<noteq> ''unknown''"
    and "(if name g = last_gesture s then gesture_frames s + 1 else 1) < 10"
  shows "lockout (handle_gesture s now g k) = lockout s"
    and "last_gesture (handle_gesture s now g k) = name g"
    and "gesture_frames (handle_gesture s now g k) =
           (if name g = last_gesture s then gesture_frames s + 1 else 1)"
    and "game (handle_gesture s now g k) = game s"
    and "lockout_after_id (handle_gesture s now g k) = lockout_after_id s"
    and "after_tbl (handle_gesture s now g k) = after_tbl s"
    and "after_next (handle_gesture s now g k) = after_next s"
  using assms by (simp_all add: handle_gesture_def Let_def split: if_splits)

lemma handle_gesture_commit:
  assumes "name g \<noteq> ''unknown''"
    and "10 \<le> (if name g = last_gesture s then gesture_frames s + 1 else 1)"
  shows "lockout (handle_gesture s now g k)"
    and "last_gesture (handle_gesture s now g k) = ''unknown''"
    and "gesture_frames (handle_gesture s now g k) = 0"
    and "game (handle_gesture s now g k) =
           snd (resolve_round (game s) (name g) (get_computer_move k))"
    and "lockout_after_id (handle_gesture s now g k) = Some (after_next s)"
    and "after_tbl (handle_gesture s now g k) =
           after_tbl s @ [(after_next s, now + 1800, ReleaseLockout)]"
    and "after_next (handle_gesture s now g k) = after_next s + 1"
  using assms
  by (simp_all add: handle_gesture_def Let_def app_resolve_round_def window_after_def
      split: if_splits prod.splits)


lemma release_ids_tbl: "release_ids s = map fst (filter (\<lambda>e. snd (snd e) = ReleaseLockout) (after_tbl s))"
  by (simp add: release_ids_def)

lemma filter_ids_release:
  "map fst (filter (\<lambda>e. snd (snd e) = ReleaseLockout) (filter (\<lambda>e. fst e \<noteq> i) tbl)) =
     filter (\<lambda>j. j \<noteq> i) (map fst (filter (\<lambda>e. snd (snd e) = ReleaseLockout) tbl))"
  by (induction tbl) auto

lemma app_inv_window_after:
  assumes "app_inv s"
  shows "app_inv (snd (window_after s now ms UpdateVideo))"
  using assms
  by (auto simp add: app_inv_def window_after_def release_ids_def list_all_iff)

lemma app_inv_status: "app_inv (s\<lparr>status_var := x\<rparr>) = app_inv s"
  by (simp add: app_inv_def release_ids_def)

lemma app_inv_handle_gesture:
  assumes "app_inv s" and "\<not> lockout s"
  shows "app_inv (handle_gesture s now g k)"
proof (cases "name g = ''unknown''")
  case True
  with assms show ?thesis
    by (simp add: app_inv_def release_ids_tbl handle_gesture_unknown)
next
  case False
  show ?thesis
  proof (cases "(if name g = last_gesture s then gesture_frames s + 1 else 1) < 10")
    case True
    with assms False show ?thesis
      by (simp add: app_inv_def release_ids_tbl handle_gesture_count)
  next
    case c: False
    then have "10 \<le> (if name g = last_gesture s then gesture_frames s + 1 else 1)" by simp
    note hg = handle_gesture_commit [OF False this]
    from assms show ?thesis
      by (auto simp add: app_inv_def release_ids_tbl hg list_all_iff)
  qed
qed

lemma app_inv_update_video:
  assumes "app_inv s"
  shows "app_inv (update_video s now cam k)"
proof (cases cam)
  case None
  with assms show ?thesis
    by (simp add: update_video_None app_inv_window_after app_inv_status)
next
  case (Some frame)
  with assms show ?thesis
    by (simp add: update_video_Some app_inv_window_after app_inv_handle_gesture)
qed

lemma app_inv_init_fields: "app_inv init_fields"
  by (simp add: app_inv_def init_fields_def release_ids_def)


lemma release_ids_mem:
  "i \<in> set (release_ids s) \<longleftrightarrow> (\<exists>d. (i, d, ReleaseLockout) \<in> set (after_tbl s))"
  by (force simp add: release_ids_def)

lemma release_ids_cancel:
  "release_ids (s\<lparr>after_tbl := filter (\<lambda>e. fst e \<noteq> i) (after_tbl s)\<rparr>) =
     filter (\<lambda>j. j \<noteq> i) (release_ids s)"
  unfolding release_ids_def by (simp del: filter_filter add: filter_ids_release)

lemma release_ids_release_lockout: "release_ids (release_lockout s) = release_ids s"
  by (simp add: release_ids_def release_lockout_def)

lemma app_inv_cancel_update:
  assumes "app_inv s" and "(i, d, UpdateVideo) \<in> set (after_tbl s)"
  shows "app_inv (s\<lparr>after_tbl := filter (\<lambda>e. fst e \<noteq> i) (after_tbl s)\<rparr>)"
proof -
  have dist: "distinct (map fst (after_tbl s))"
    using assms(1) by (simp add: app_inv_def)
  have "i \<notin> set (release_ids s)"
  proof
    assume "i \<in> set (release_ids s)"
    then obtain d' where "(i, d', ReleaseLockout) \<in> set (after_tbl s)"
      by (auto simp add: release_ids_mem)
    with assms(2) dist have "(d, UpdateVideo) = (d', ReleaseLockout)"
      by (meson eq_key_imp_eq_value)
    then show False by simp
  qed
  then have "filter (\<lambda>j. j \<noteq> i) (release_ids s) = release_ids s"
    by (simp add: filter_id_conv) metis
  with assms(1) show ?thesis
    by (auto simp add: app_inv_def release_ids_cancel distinct_map_filter list_all_iff)
qed

lemma app_inv_fire_release:
  assumes "app_inv s" and "(i, d, ReleaseLockout) \<in> set (after_tbl s)"
  shows "app_inv (release_lockout (s\<lparr>after_tbl := filter (\<lambda>e. fst e \<noteq> i) (after_tbl s)\<rparr>))"
    and "lockout s" and "lockout_after_id s = Some i" and "release_ids s = [i]"
proof -
  have mem: "i \<in> set (release_ids s)"
    using assms(2) by (auto simp add: release_ids_mem)
  with assms(1) show l: "lockout s"
    by (auto simp add: app_inv_def split: if_splits)
  with assms(1) mem show id: "lockout_after_id s = Some i"
    by (auto simp add: app_inv_def split: option.splits)
  with assms(1) l show r: "release_ids s = [i]"
    by (simp add: app_inv_def)
  then have "release_ids (release_lockout (s\<lparr>after_tbl := filter (\<lambda>e. fst e \<noteq> i) (after_tbl s)\<rparr>)) = []"
    by (simp add: release_ids_release_lockout release_ids_cancel)
  moreover have "\<not> lockout (release_lockout (s\<lparr>after_tbl := filter (\<lambda>e. fst e \<noteq> i) (after_tbl s)\<rparr>))"
    by (simp add: release_lockout_def)
  moreover have "distinct (map fst (after_tbl (release_lockout (s\<lparr>after_tbl := filter (\<lambda>e. fst e \<noteq> i) (after_tbl s)\<rparr>))))"
    using assms(1) by (simp add: app_inv_def release_lockout_def distinct_map_filter)
  moreover have "list_all (\<lambda>e. fst e < after_next (release_lockout (s\<lparr>after_tbl := filter (\<lambda>e. fst e \<noteq> i) (after_tbl s)\<rparr>)))
      (after_tbl (release_lockout (s\<lparr>after_tbl := filter (\<lambda>e. fst e \<noteq> i) (after_tbl s)\<rparr>)))"
    using assms(1) by (simp add: app_inv_def release_lockout_def list_all_iff)
  ultimately show "app_inv (release_lockout (s\<lparr>after_tbl := filter (\<lambda>e. fst e \<noteq> i) (after_tbl s)\<rparr>))"
    by (simp add: app_inv_def)
qed

lemma find_id_Some:
  "find (\<lambda>e. fst e = i) tbl = Some (j, d, f) \<Longrightarrow> j = i \<and> (i, d, f) \<in> set tbl"
  by (induction tbl) (auto split: if_splits)

lemma app_inv_fire_timer:
  assumes "app_inv s"
  shows "app_inv (fire_timer s i now cam k)"
proof (cases "find (\<lambda>e. fst e = i) (after_tbl s)")
  case None
  with assms show ?thesis by (simp add: fire_timer_def)
next
  case (Some e)
  obtain j d f where e: "e = (j, d, f)" by (cases e) auto
  from Some e have m: "(i, d, f) \<in> set (after_tbl s)"
    using find_id_Some by fastforce
  show ?thesis
  proof (cases f)
    case UpdateVideo
    with assms m Some e show ?thesis
      by (simp add: fire_timer_def app_inv_cancel_update app_inv_update_video)
  next
    case ReleaseLockout
    with assms m Some e show ?thesis
      by (simp add: fire_timer_def app_inv_fire_release(1))
  qed
qed

lemma app_inv_reset_game:
  assumes "app_inv s"
  shows "app_inv (reset_game s)" and "release_ids (reset_game s) = []"
proof -
  have c: "release_ids (reset_game s) =
      (case lockout_after_id s of
         Some i \<Rightarrow> filter (\<lambda>j. j \<noteq> i) (release_ids s)
       | None \<Rightarrow> release_ids s)"
    unfolding release_ids_def
    by (simp del: filter_filter add: reset_game_def window_after_cancel_def filter_ids_release
        split: option.splits)
  show r: "release_ids (reset_game s) = []"
    using assms unfolding c
    by (auto simp add: app_inv_def split: option.splits if_splits)
  have "distinct (map fst (after_tbl (reset_game s)))"
    using assms
    by (auto simp add: app_inv_def reset_game_def window_after_cancel_def distinct_map_filter
        split: option.splits)
  moreover have "list_all (\<lambda>e. fst e < after_next (reset_game s)) (after_tbl (reset_game s))"
    using assms
    by (auto simp add: app_inv_def reset_game_def window_after_cancel_def list_all_iff
        split: option.splits)
  moreover have "\<not> lockout (reset_game s)"
    by (simp add: reset_game_def split: option.splits)
  ultimately show "app_inv (reset_game s)"
    using r by (simp add: app_inv_def)
qed

lemma reachable_inv: "reachable s \<Longrightarrow> app_inv s"
proof (induction rule: reachable.induct)
  case (reachable_init now cam k)
  show ?case by (simp add: app_inv_update_video app_inv_init_fields)
next
  case (reachable_step s ev)
  then show ?case
    by (cases ev) (simp_all add: app_inv_fire_timer app_inv_reset_game(1))
qed


lemma locked_example_lockout: "lockout locked_example"
  by code_simp

lemma locked_example_after_tbl: "after_tbl locked_example = [(9, 2070, ReleaseLockout), (10, 300, UpdateVideo)]"
  by code_simp

lemma locked_example_game: "game locked_example = \<lparr>player = 0, computer = 0, ties = 1\<rparr>"
  by code_simp

lemma locked_example_after_id: "lockout_after_id locked_example = Some 9"
  by code_simp

lemma ticks_Nil: "ticks s [] = s"
  by (simp add: ticks_def)

lemma ticks_Cons: "ticks s ((now, cam, k) # ts) = ticks (update_video s now cam k) ts"
  by (simp add: ticks_def)

lemma ticks_snoc: "ticks s (ts @ [(now, cam, k)]) = update_video (ticks s ts) now cam k"
  by (simp add: ticks_def)

lemma update_video_locked:
  assumes "lockout s"
  shows "lockout (update_video s now cam k)"
    and "last_gesture (update_video s now cam k) = last_gesture s"
    and "gesture_frames (update_video s now cam k) = gesture_frames s"
    and "game (update_video s now cam k) = game s"
    and "lockout_after_id (update_video s now cam k) = lockout_after_id s"
  using assms
  by (cases cam; simp add: update_video_Some update_video_None window_after_fields)+



lemma observed_Some:
  "observed (now, cam, k) = Some m \<longleftrightarrow> (\<exists>frame. cam = Some frame \<and> name (fst (process frame)) = m)"
  by (auto simp add: observed_def split: option.splits)

lemma update_video_unknown:
  assumes "\<not> lockout s" and "observed (now, cam, k) = Some ''unknown''"
  shows "\<not> lockout (update_video s now cam k)"
    and "last_gesture (update_video s now cam k) = ''unknown''"
    and "gesture_frames (update_video s now cam k) = 0"
    and "game (update_video s now cam k) = game s"
  using assms
  by (auto simp add: observed_Some update_video_Some window_after_fields handle_gesture_unknown)

lemma update_video_count:
  assumes "\<not> lockout s" and "observed (now, cam, k) = Some m" and "m \<noteq> ''unknown''"
    and "(if m = last_gesture s then gesture_frames s + 1 else 1) < 10"
  shows "\<not> lockout (update_video s now cam k)"
    and "last_gesture (update_video s now cam k) = m"
    and "gesture_frames (update_video s now cam k) =
           (if m = last_gesture s then gesture_frames s + 1 else 1)"
    and "game (update_video s now cam k) = game s"
  using assms
  by (auto simp add: observed_Some update_video_Some window_after_fields handle_gesture_count)

lemma update_video_commit:
  assumes "\<not> lockout s" and "observed (now, cam, k) = Some m" and "m \<noteq> ''unknown''"
    and "10 \<le> (if m = last_gesture s then gesture_frames s + 1 else 1)"
  shows "lockout (update_video s now cam k)"
    and "last_gesture (update_video s now cam k) = ''unknown''"
    and "gesture_frames (update_video s now cam k) = 0"
    and "game (update_video s now cam k) = snd (resolve_round (game s) m (get_computer_move k))"
  using assms
  by (auto simp add: observed_Some update_video_Some window_after_fields handle_gesture_commit)

lemma ticks_accumulate:
  assumes "\<not> lockout s" and "m \<noteq> ''unknown''" and "last_gesture s = m"
    and "\<forall>t\<in>set ts. observed t = Some m"
    and "gesture_frames s + int (length ts) < 10"
  shows "\<not> lockout (ticks s ts) \<and> last_gesture (ticks s ts) = m \<and>
         gesture_frames (ticks s ts) = gesture_frames s + int (length ts) \<and>
         game (ticks s ts) = game s"
  using assms
proof (induction ts arbitrary: s)
  case Nil
  then show ?case by (simp add: ticks_Nil)
next
  case (Cons t ts)
  obtain now cam k where t: "t = (now, cam, k)" by (cases t) auto
  let ?s = "update_video s now cam k"
  have o: "observed (now, cam, k) = Some m"
    using Cons.prems(4) t by simp
  have c: "(if m = last_gesture s then gesture_frames s + 1 else 1) < 10"
    using Cons.prems(3,5) by simp
  note uv = update_video_count [OF Cons.prems(1) o Cons.prems(2) c]
  have "\<not> lockout (ticks ?s ts) \<and> last_gesture (ticks ?s ts) = m \<and>
        gesture_frames (ticks ?s ts) = gesture_frames ?s + int (length ts) \<and>
        game (ticks ?s ts) = game ?s"
    using Cons.prems uv by (intro Cons.IH) simp_all
  then show ?case
    using uv Cons.prems(3) by (simp add: t ticks_Cons)
qed

lemma ticks_streak:
  assumes "\<not> lockout s" and "m \<noteq> ''unknown''" and "last_gesture s \<noteq> m"
    and "\<forall>t\<in>set ts. observed t = Some m"
    and "ts \<noteq> []" and "length ts < 10"
  shows "\<not> lockout (ticks s ts) \<and> last_gesture (ticks s ts) = m \<and>
         gesture_frames (ticks s ts) = int (length ts) \<and>
         game (ticks s ts) = game s"
proof -
  obtain t ts' where ts: "ts = t # ts'"
    using assms(5) by (cases ts) auto
  obtain now cam k where t: "t = (now, cam, k)" by (cases t) auto
  let ?s = "update_video s now cam k"
  have o: "observed (now, cam, k) = Some m"
    using assms(4) ts t by simp
  have c: "(if m = last_gesture s then gesture_frames s + 1 else 1) < 10"
    using assms(3) by simp
  note uv = update_video_count [OF assms(1) o assms(2) c]
  have "\<not> lockout (ticks ?s ts') \<and> last_gesture (ticks ?s ts') = m \<and>
        gesture_frames (ticks ?s ts') = gesture_frames ?s + int (length ts') \<and>
        game (ticks ?s ts') = game ?s"
    using assms uv ts by (intro ticks_accumulate) simp_all
  then show ?thesis
    using uv assms(3) by (simp add: ts t ticks_Cons)
qed

lemma rounds_resolve_round:
  "player (snd (resolve_round sc a b)) + computer (snd (resolve_round sc a b)) +
     ties (snd (resolve_round sc a b)) = player sc + computer sc + ties sc + 1"
  by (simp add: resolve_round_score)



lemma handle_gesture_timers:
  "after_next s \<le> after_next (handle_gesture s now g k) \<and>
   set (map fst (after_tbl (handle_gesture s now g k))) \<subseteq>
     set (map fst (after_tbl s)) \<union> {after_next s}"
proof (cases "name g = ''unknown''")
  case True
  then show ?thesis by (auto simp add: handle_gesture_unknown)
next
  case False
  show ?thesis
  proof (cases "(if name g = last_gesture s then gesture_frames s + 1 else 1) < 10")
    case True
    with False show ?thesis by (auto simp add: handle_gesture_count)
  next
    case c: False
    then have "10 \<le> (if name g = last_gesture s then gesture_frames s + 1 else 1)" by simp
    note hg = handle_gesture_commit [OF False this]
    show ?thesis by (auto simp add: hg)
  qed
qed

lemma cancelled_update_video:
  assumes "cancelled i s"
  shows "cancelled i (update_video s now cam k)"
proof (cases cam)
  case None
  with assms show ?thesis
    by (auto simp add: cancelled_def update_video_None window_after_fields)
next
  case (Some frame)
  show ?thesis
  proof (cases "lockout s")
    case True
    with assms Some show ?thesis
      by (auto simp add: cancelled_def update_video_Some window_after_fields)
  next
    case False
    from handle_gesture_timers [of s now "fst (process frame)" k] assms False Some
    show ?thesis
      by (auto simp add: cancelled_def update_video_Some window_after_fields)
  qed
qed

lemma cancelled_cancel:
  "cancelled i s \<Longrightarrow> cancelled i (s\<lparr>after_tbl := filter (\<lambda>e. fst e \<noteq> j) (after_tbl s)\<rparr>)"
  by (auto simp add: cancelled_def)

lemma cancelled_fire_timer_same: "cancelled i s \<Longrightarrow> fire_timer s i now cam k = s"
proof -
  assume "cancelled i s"
  then have "find (\<lambda>e. fst e = i) (after_tbl s) = None"
    by (force simp add: cancelled_def find_None_iff)
  then show ?thesis by (simp add: fire_timer_def)
qed

lemma cancelled_step:
  assumes "cancelled i s"
  shows "cancelled i (step s ev)"
proof (cases ev)
  case (Fire j now cam k)
  show ?thesis
  proof (cases "find (\<lambda>e. fst e = j) (after_tbl s)")
    case None
    with assms Fire show ?thesis by (simp add: fire_timer_def)
  next
    case (Some e)
    obtain j' d f where e: "e = (j', d, f)" by (cases e) auto
    have c: "cancelled i (s\<lparr>after_tbl := filter (\<lambda>e. fst e \<noteq> j) (after_tbl s)\<rparr>)"
      using assms by (rule cancelled_cancel)
    then have "cancelled i (release_lockout (s\<lparr>after_tbl := filter (\<lambda>e. fst e \<noteq> j) (after_tbl s)\<rparr>))"
      by (simp add: cancelled_def release_lockout_def)
    with c assms Fire Some e show ?thesis
      by (cases f) (simp_all add: fire_timer_def cancelled_update_video)
  qed
next
  case ResetButton
  with assms show ?thesis
    by (auto simp add: cancelled_def reset_game_def window_after_cancel_def split: option.splits)
qed

lemma cancelled_run: "cancelled i s \<Longrightarrow> cancelled i (run s evs)"
  unfolding run_def by (induction evs arbitrary: s) (simp_all add: cancelled_step)

lemma reachable_run: "reachable s \<Longrightarrow> reachable (run s evs)"
  unfolding run_def by (induction evs arbitrary: s) (simp_all add: reachable_step)

lemma reset_game_fields:
  "\<not> lockout (reset_game s)"
  "last_gesture (reset_game s) = ''unknown''"
  "gesture_frames (reset_game s) = 0"
  "game (reset_game s) = \<lparr>player = 0, computer = 0, ties = 0\<rparr>"
  "player_score_var (reset_game s) = ''0''"
  "computer_score_var (reset_game s) = ''0''"
  "tie_score_var (reset_game s) = ''0''"
  "after_next (reset_game s) = after_next s"
  by (simp_all add: reset_game_def new_score_def window_after_cancel_def split: option.splits)

lemma reset_game_cancels:
  assumes "app_inv s" and "i \<in> set (release_ids s)"
  shows "cancelled i (reset_game s)"
proof -
  from assms(2) obtain d where m: "(i, d, ReleaseLockout) \<in> set (after_tbl s)"
    by (auto simp add: release_ids_mem)
  note f = app_inv_fire_release [OF assms(1) m]
  have "i < after_next s"
    using assms(1) m by (auto simp add: app_inv_def list_all_iff)
  then show ?thesis
    using f(3) by (auto simp add: cancelled_def reset_game_def window_after_cancel_def)
qed

lemma reachable_locked_example: "reachable locked_example"
  unfolding locked_example_def by (intro reachable_run reachable_init)

lemma release_ids_locked_example: "release_ids locked_example = [9]"
  by (simp add: release_ids_def locked_example_after_tbl)

lemma observed_rock: "observed (now, Some [rock_hand], k) = Some ''rock''"
  by (simp add: observed_def process_def classify_landmarks rock_hand_def classify_fingers_def)

lemma observed_no_hand: "observed (now, Some [], k) = Some ''unknown''"
  by (simp add: observed_def process_def)

text \<open>
  Claim C1. Start from any state that is not locked and whose candidate is not the move
  \<open>m\<close> (the idle state is one). After nine ticks that all observe \<open>m\<close> no round is
  committed. If the next tick observes \<open>unknown\<close>, still no round is committed, and
  candidate and count are reset to \<open>unknown\<close> and 0. If instead the next tick, the
  tenth, observes \<open>m\<close>, exactly one round is resolved, with \<open>m\<close> as the player's move
  and the move drawn at that tick as the computer's, and the debouncer is locked.
\<close>

theorem debounce_commit_threshold:
  assumes "\<not> lockout s" and "m \<noteq> ''unknown''" and "last_gesture s \<noteq> m"
    and "length ts = 9" and "\<forall>t\<in>set ts. observed t = Some m"
    and "observed tu = Some ''unknown''" and "observed tm = Some m"
  shows "\<not> lockout (ticks s ts) \<and> game (ticks s ts) = game s \<and>
         \<not> lockout (ticks s (ts @ [tu])) \<and>
         game (ticks s (ts @ [tu])) = game s \<and>
         rounds (ticks s (ts @ [tu])) = rounds s \<and>
         last_gesture (ticks s (ts @ [tu])) = ''unknown'' \<and>
         gesture_frames (ticks s (ts @ [tu])) = 0 \<and>
         lockout (ticks s (ts @ [tm])) \<and>
         game (ticks s (ts @ [tm])) =
           snd (resolve_round (game s) m (get_computer_move (snd (snd tm)))) \<and>
         rounds (ticks s (ts @ [tm])) = rounds s + 1"
proof -
  have ne: "ts \<noteq> []" and lt: "length ts < 10"
    using assms(4) by auto
  have nine: "\<not> lockout (ticks s ts) \<and> last_gesture (ticks s ts) = m \<and>
        gesture_frames (ticks s ts) = int (length ts) \<and> game (ticks s ts) = game s"
    using assms(1,2,3,5) ne lt by (rule ticks_streak)
  obtain nu cu ku where tu: "tu = (nu, cu, ku)" by (cases tu) auto
  obtain nm cm km where tm: "tm = (nm, cm, km)" by (cases tm) auto
  have ou: "observed (nu, cu, ku) = Some ''unknown''" using assms(6) tu by simp
  have om: "observed (nm, cm, km) = Some m" using assms(7) tm by simp
  have nl: "\<not> lockout (ticks s ts)" using nine by simp
  note u = update_video_unknown [OF nl ou]
  have ten: "10 \<le> (if m = last_gesture (ticks s ts) then gesture_frames (ticks s ts) + 1 else 1)"
    using nine assms(4) by simp
  note c = update_video_commit [OF nl om assms(2) ten]
  show ?thesis
    using nine u c
    by (simp add: tu tm ticks_snoc rounds_def rounds_resolve_round)
qed

theorem debounce_commit_threshold_witness:
  "\<not> lockout init_fields \<and> last_gesture init_fields \<noteq> ''rock'' \<and>
   game (ticks init_fields (replicate 9 (0, Some [rock_hand], 0) @ [(0, Some [], 0)])) =
     \<lparr>player = 0, computer = 0, ties = 0\<rparr> \<and>
   gesture_frames (ticks init_fields (replicate 9 (0, Some [rock_hand], 0) @ [(0, Some [], 0)])) = 0 \<and>
   lockout (ticks init_fields (replicate 9 (0, Some [rock_hand], 0) @ [(0, Some [rock_hand], 2)])) \<and>
   game (ticks init_fields (replicate 9 (0, Some [rock_hand], 0) @ [(0, Some [rock_hand], 2)])) =
     \<lparr>player = 1, computer = 0, ties = 0\<rparr>"
proof -
  have a: "\<not> lockout init_fields" and b: "''rock'' \<noteq> ''unknown''"
    and c: "last_gesture init_fields \<noteq> ''rock''"
    by (simp_all add: init_fields_def)
  have d: "length (replicate 9 (0::nat, Some [rock_hand], 0::nat)) = 9" by simp
  have e: "\<forall>t\<in>set (replicate 9 (0::nat, Some [rock_hand], 0::nat)). observed t = Some ''rock''"
    by (simp add: observed_rock)
  have g: "game init_fields = \<lparr>player = 0, computer = 0, ties = 0\<rparr>"
    by (simp add: init_fields_def new_score_def)
  have r: "snd (resolve_round \<lparr>player = 0, computer = 0, ties = 0\<rparr> ''rock'' (get_computer_move 2)) =
      \<lparr>player = 1, computer = 0, ties = 0\<rparr>"
    by (simp add: resolve_round_score get_computer_move_def MOVES_def spec_beats_def)
  show ?thesis
    using debounce_commit_threshold [OF a b c d e observed_no_hand observed_rock, of 0 0 0 2] a c g r
    by simp
qed

text \<open>
  Claim C3. While the lockout flag is set (from the commit until the release callback
  runs, so in particular before the cool-down has elapsed), any sequence of ticks of the
  video loop, whatever the frames, the clock and the draws, leaves the flag set and the
  candidate, the count, the score and the number of resolved rounds as they were.
\<close>

theorem locked_ticks_ignored:
  assumes "lockout s"
  shows "lockout (ticks s ts) \<and>
         last_gesture (ticks s ts) = last_gesture s \<and>
         gesture_frames (ticks s ts) = gesture_frames s \<and>
         lockout_after_id (ticks s ts) = lockout_after_id s \<and>
         game (ticks s ts) = game s \<and>
         rounds (ticks s ts) = rounds s"
  using assms
proof (induction ts arbitrary: s)
  case Nil
  then show ?case by (simp add: ticks_Nil)
next
  case (Cons t ts)
  obtain now cam k where t: "t = (now, cam, k)" by (cases t) auto
  from Cons.IH [of "update_video s now cam k"] Cons.prems show ?case
    by (simp add: t ticks_Cons update_video_locked rounds_def)
qed

theorem locked_ticks_ignored_witness:
  "lockout locked_example \<and>
   lockout (ticks locked_example [(300, Some [paper_hand], 1), (330, None, 0)]) \<and>
   gesture_frames (ticks locked_example [(300, Some [paper_hand], 1), (330, None, 0)]) =
     gesture_frames locked_example \<and>
   game (ticks locked_example [(300, Some [paper_hand], 1), (330, None, 0)]) =
     \<lparr>player = 0, computer = 0, ties = 1\<rparr>"
  using locked_ticks_ignored [OF locked_example_lockout,
      of "[(300, Some [paper_hand], 1), (330, None, 0)]"]
    locked_example_lockout locked_example_game
  by simp

text \<open>
  Claim C4, as stated, fails. In the run \<open>locked_example\<close> the round is committed at
  clock 270, so the release is due at 2070, and the next tick of the video loop (timer
  10) is pending too. If the event loop gets to that tick only at clock 5000, after the
  deadline, the tick still finds the lockout flag set: the frame, an open palm, is
  dropped, the machine stays locked, candidate and count stay cleared.
\<close>

theorem locked_tick_after_deadline_counterexample:
  "lockout locked_example \<and>
   after_tbl locked_example = [(9, 2070, ReleaseLockout), (10, 300, UpdateVideo)] \<and>
   observed (5000, Some [paper_hand], 0) = Some ''paper'' \<and>
   lockout (step locked_example (Fire 10 5000 (Some [paper_hand]) 0)) \<and>
   last_gesture (step locked_example (Fire 10 5000 (Some [paper_hand]) 0)) = ''unknown'' \<and>
   gesture_frames (step locked_example (Fire 10 5000 (Some [paper_hand]) 0)) = 0"
  by code_simp

text \<open>
  Claim C4, amended. In every reachable locked state the release callback scheduled at
  the commit is pending under the stored identifier. A tick that runs while the flag is
  set drops its observation, whatever the clock. When the event loop runs the release
  callback, at or after its deadline, the machine is idle (not locked, candidate
  \<open>unknown\<close>, count 0, score untouched), and every frame of a later tick is handed to
  \<open>handle_gesture\<close>, that is, processed under the unknown and accumulate rules.
\<close>

theorem lockout_released_by_timer:
  assumes "reachable s" and "lockout s"
  shows "\<exists>i due. lockout_after_id s = Some i \<and> (i, due, ReleaseLockout) \<in> set (after_tbl s) \<and>
     (\<forall>now cam k.
        lockout (update_video s now cam k) \<and>
        last_gesture (update_video s now cam k) = last_gesture s \<and>
        gesture_frames (update_video s now cam k) = gesture_frames s \<and>
        game (update_video s now cam k) = game s) \<and>
     (\<forall>now cam k. due \<le> now \<longrightarrow>
        \<not> lockout (fire_timer s i now cam k) \<and>
        last_gesture (fire_timer s i now cam k) = ''unknown'' \<and>
        gesture_frames (fire_timer s i now cam k) = 0 \<and>
        game (fire_timer s i now cam k) = game s \<and>
        (\<forall>now' frame k'.
           update_video (fire_timer s i now cam k) now' (Some frame) k' =
             snd (window_after
                   (handle_gesture (fire_timer s i now cam k) now' (fst (process frame)) k')
                   now' 30 UpdateVideo)))"
proof -
  have inv: "app_inv s" using assms(1) by (rule reachable_inv)
  with assms(2) obtain i where i: "lockout_after_id s = Some i" and r: "release_ids s = [i]"
    and idle: "last_gesture s = ''unknown''" "gesture_frames s = 0"
    by (auto simp add: app_inv_def)
  from r have "i \<in> set (release_ids s)" by simp
  then obtain due where m: "(i, due, ReleaseLockout) \<in> set (after_tbl s)"
    by (auto simp add: release_ids_mem)
  have dist: "distinct (map fst (after_tbl s))"
    using inv by (simp add: app_inv_def)
  have f: "find (\<lambda>e. fst e = i) (after_tbl s) = Some (i, due, ReleaseLockout)"
  proof (cases "find (\<lambda>e. fst e = i) (after_tbl s)")
    case None
    with m show ?thesis by (auto simp add: find_None_iff)
  next
    case (Some e)
    obtain j d g where e: "e = (j, d, g)" by (cases e) auto
    with Some have "j = i \<and> (i, d, g) \<in> set (after_tbl s)"
      using find_id_Some by fastforce
    with m dist have "j = i \<and> (d, g) = (due, ReleaseLockout)"
      by (meson eq_key_imp_eq_value)
    with Some e show ?thesis by simp
  qed
  have fire: "fire_timer s i now cam k =
      release_lockout (s\<lparr>after_tbl := filter (\<lambda>e. fst e \<noteq> i) (after_tbl s)\<rparr>)"
    if "due \<le> now" for now cam k
    using that f by (simp add: fire_timer_def)
  have released: "\<not> lockout (fire_timer s i now cam k) \<and>
        last_gesture (fire_timer s i now cam k) = ''unknown'' \<and>
        gesture_frames (fire_timer s i now cam k) = 0 \<and>
        game (fire_timer s i now cam k) = game s"
    if "due \<le> now" for now cam k
    using idle by (simp add: fire [OF that] release_lockout_def)
  show ?thesis
    using i m released update_video_locked [OF assms(2)]
    by (intro exI [of _ i] exI [of _ due]) (simp add: update_video_Some)
qed

theorem lockout_released_by_timer_witness:
  "reachable locked_example \<and> lockout locked_example \<and>
   lockout (update_video locked_example 5000 (Some [paper_hand]) 0) \<and>
   \<not> lockout (fire_timer locked_example 9 2070 None 0) \<and>
   gesture_frames (fire_timer locked_example 9 2070 None 0) = 0 \<and>
   update_video (fire_timer locked_example 9 2070 None 0) 2100 (Some [paper_hand]) 0 =
     snd (window_after
           (handle_gesture (fire_timer locked_example 9 2070 None 0) 2100
              (fst (process [paper_hand])) 0)
           2100 30 UpdateVideo)"
proof -
  from lockout_released_by_timer [OF reachable_locked_example locked_example_lockout]
  obtain i due where i: "lockout_after_id locked_example = Some i"
    and m: "(i, due, ReleaseLockout) \<in> set (after_tbl locked_example)"
    and dropped: "\<forall>now cam k. lockout (update_video locked_example now cam k)"
    and released: "\<forall>now cam k. due \<le> now \<longrightarrow>
        \<not> lockout (fire_timer locked_example i now cam k) \<and>
        last_gesture (fire_timer locked_example i now cam k) = ''unknown'' \<and>
        gesture_frames (fire_timer locked_example i now cam k) = 0 \<and>
        game (fire_timer locked_example i now cam k) = game locked_example \<and>
        (\<forall>now' frame k'.
           update_video (fire_timer locked_example i now cam k) now' (Some frame) k' =
             snd (window_after
                   (handle_gesture (fire_timer locked_example i now cam k) now'
                      (fst (process frame)) k')
                   now' 30 UpdateVideo))"
    by blast
  from i have i9: "i = 9" by (simp add: locked_example_after_id)
  with m have due: "due = 2070" by (simp add: locked_example_after_tbl)
  from released [rule_format, of 2070 None 0] i9 due dropped
  show ?thesis
    using reachable_locked_example locked_example_lockout by simp
qed

text \<open>
  Claim C7. In every reachable state, \<open>reset_game\<close> leaves the debouncer idle (not
  locked, candidate \<open>unknown\<close>, count 0) and the three score counters at zero, and no
  cool-down release is pending afterwards. A release that was pending before the reset
  never fires later: whatever events follow, its identifier is not in the timer table,
  so the event loop has nothing to run for it.
\<close>

theorem reset_game_clears:
  assumes "reachable s"
  shows "\<not> lockout (reset_game s) \<and>
         last_gesture (reset_game s) = ''unknown'' \<and>
         gesture_frames (reset_game s) = 0 \<and>
         game (reset_game s) = \<lparr>player = 0, computer = 0, ties = 0\<rparr> \<and>
         release_ids (reset_game s) = [] \<and>
         (\<forall>i\<in>set (release_ids s). \<forall>evs now cam k.
            fire_timer (run (reset_game s) evs) i now cam k = run (reset_game s) evs)"
proof -
  have inv: "app_inv s" using assms by (rule reachable_inv)
  have "fire_timer (run (reset_game s) evs) i now cam k = run (reset_game s) evs"
    if "i \<in> set (release_ids s)" for i evs now cam k
    using reset_game_cancels [OF inv that] by (intro cancelled_fire_timer_same cancelled_run)
  then show ?thesis
    using app_inv_reset_game(2) [OF inv] by (simp add: reset_game_fields)
qed

theorem reset_game_clears_witness:
  "reachable locked_example \<and> 9 \<in> set (release_ids locked_example) \<and>
   \<not> lockout (reset_game locked_example) \<and>
   release_ids (reset_game locked_example) = [] \<and>
   game (reset_game locked_example) = \<lparr>player = 0, computer = 0, ties = 0\<rparr> \<and>
   fire_timer (run (reset_game locked_example) [Fire 10 300 (Some [rock_hand]) 0]) 9 2070 None 0 =
     run (reset_game locked_example) [Fire 10 300 (Some [rock_hand]) 0]"
proof -
  have m: "9 \<in> set (release_ids locked_example)"
    by (simp add: release_ids_locked_example)
  from reset_game_clears [OF reachable_locked_example] m
  show ?thesis
    using reachable_locked_example by blast
qed

end
